theory Spec2Isabelle
  imports Main
begin

section \<open>JavaScript values\<close>

text \<open>
  The component of \<^verbatim>\<open>src/renderer/components/App.js\<close> handles values it
  receives from its libraries (raw log events, rejected promises, form values).
  It only ever tests such a value for being a string (\<^verbatim>\<open>typeof v === "string"\<close>,
  \<^verbatim>\<open>v === "literal"\<close>), tests its truthiness, or coerces it to a string.
  A value is therefore either a string, or some other value given by its
  truthiness and by the string JavaScript coerces it to.
\<close>

datatype jsval = JStr string | JOther bool string

fun truthy :: "jsval \<Rightarrow> bool" where
  "truthy (JStr s) = (s \<noteq> [])"
| "truthy (JOther b r) = b"

fun ToString :: "jsval \<Rightarrow> string" where
  "ToString (JStr s) = s"
| "ToString (JOther b r) = r"

fun is_string :: "jsval \<Rightarrow> bool" where
  "is_string (JStr s) = True"
| "is_string (JOther b r) = False"

definition JUndefined :: jsval where
  "JUndefined = JOther False ''undefined''"

text \<open>
  The no-break space U+00A0 that ends the string literals of lines 404 and 409: one
  code unit of the JavaScript string.
\<close>

definition nbsp :: string where
  "nbsp = [CHR 0xA0]"

text \<open>
  A value that reaches \<^verbatim>\<open>addLogError\<close>: its truthiness, its \<^verbatim>\<open>name\<close> and
  \<^verbatim>\<open>message\<close> properties (\<open>JUndefined\<close> when it has none) and \<^verbatim>\<open>String(error)\<close>.
\<close>

record js_error =
  err_truthy :: bool
  err_name :: jsval
  err_message :: jsval
  err_String :: string

section \<open>Numbers as text\<close>

text \<open>
  \<^verbatim>\<open>d + "ms"\<close> prints the integer \<open>d\<close> in decimal, with a minus sign when negative.
\<close>

definition digit_char :: "nat \<Rightarrow> char" where
  "digit_char n = ''0123456789'' ! n"

fun show_nat :: "nat \<Rightarrow> string" where
  "show_nat n = (if n < 10 then [digit_char n] else show_nat (n div 10) @ [digit_char (n mod 10)])"

declare show_nat.simps [simp del]

definition show_int :: "int \<Rightarrow> string" where
  "show_int d = (if d < 0 then CHR ''-'' # show_nat (nat (- d)) else show_nat (nat d))"

text \<open>
  \<^verbatim>\<open>(d / 1000).toFixed(1)\<close>. The quotient is an IEEE 754 double: the binary
  fraction with a 53-bit significand nearest to the exact quotient, ties to the even
  significand. \<open>js_div a b\<close> is that double as a pair \<open>(m, e)\<close> standing for
  \<open>m / 2 ^ e\<close>; it is the double for quotients from 1 up to \<open>2 ^ 53\<close>, which covers every
  difference of two clock readings. \<^verbatim>\<open>toFixed(1)\<close> takes the integer \<open>n\<close> for which
  \<open>n / 10\<close> is closest to the double, the larger one on a tie, and prints it with
  a point before its last digit.
\<close>

fun bitlen :: "nat \<Rightarrow> nat" where
  "bitlen n = (if n = 0 then 0 else Suc (bitlen (n div 2)))"

declare bitlen.simps [simp del]

definition rne :: "nat \<Rightarrow> nat \<Rightarrow> nat" where
  "rne a b =
     (let q = a div b; r = a mod b
      in if 2 * r < b then q
         else if b < 2 * r then q + 1
         else if even q then q else q + 1)"

definition js_div :: "nat \<Rightarrow> nat \<Rightarrow> nat \<times> nat" where
  "js_div a b = (let e = 53 - bitlen (a div b) in (rne (a * 2 ^ e) b, e))"

definition toFixed1 :: "nat \<times> nat \<Rightarrow> string" where
  "toFixed1 x =
     (let n = (20 * fst x + 2 ^ snd x) div 2 ^ (snd x + 1)
      in show_nat (n div 10) @ ''.'' @ show_nat (n mod 10))"

text \<open>
  \<^verbatim>\<open>d < 1000 ? d + "ms" : (d / 1000).toFixed(1) + "s"\<close> (line 430), for the whole
  number of milliseconds \<open>d\<close> between two readings of \<^verbatim>\<open>Date.now()\<close>.
\<close>

definition format_delta :: "int \<Rightarrow> string" where
  "format_delta d =
     (if d < 1000 then show_int d @ ''ms''
      else toFixed1 (js_div (nat d) 1000) @ ''s'')"

section \<open>The log store\<close>

text \<open>
  A log entry, and the payload \<^verbatim>\<open>addLog\<close> is called with: every call in the file
  gives the keys \<^verbatim>\<open>type\<close> and \<^verbatim>\<open>text\<close>, some also \<^verbatim>\<open>object\<close>, so that the spread
  \<^verbatim>\<open>...action.payload\<close> never replaces \<^verbatim>\<open>id\<close> or \<^verbatim>\<open>date\<close>. The module-level counter
  \<^verbatim>\<open>let id = 0\<close> is a natural number (the double that holds it counts exactly for
  the first \<open>2 ^ 53\<close> increments).
\<close>

record payload =
  p_type :: string
  p_text :: jsval
  p_object :: "jsval option"

record log =
  log_id :: nat
  log_date :: int
  log_type :: string
  log_text :: jsval
  log_object :: "jsval option"

datatype log_action = ADD payload | CLEAR | OTHER

text \<open>
  The reducer of \<^verbatim>\<open>useReducer\<close> (lines 264-273), with the counter it increments as
  part of the state and the clock reading of \<^verbatim>\<open>new Date()\<close> as an argument.
\<close>

definition logs_reducer :: "nat \<times> log list \<Rightarrow> int \<Rightarrow> log_action \<Rightarrow> nat \<times> log list" where
  "logs_reducer st now a =
     (case a of
        ADD p \<Rightarrow>
          (fst st + 1,
           snd st @ [\<lparr>log_id = fst st + 1, log_date = now, log_type = p_type p,
                      log_text = p_text p, log_object = p_object p\<rparr>])
      | CLEAR \<Rightarrow> (fst st, [])
      | OTHER \<Rightarrow> st)"

text \<open>
  The second argument of \<^verbatim>\<open>useReducer\<close>, the array holding the announcement with
  \<^verbatim>\<open>id: ++id\<close>, is an expression of the component's body: every render evaluates
  it and so increments the counter, although only the first render's array is used.
  \<open>Rerender\<close> stands for any such evaluation of \<^verbatim>\<open>++id\<close> that gives no stored entry its
  id (a call of the reducer whose result React discards is another).
\<close>

definition render_store :: "nat \<times> log list \<Rightarrow> nat \<times> log list" where
  "render_store st = (fst st + 1, snd st)"

datatype store_op = Append payload int | Clear | Rerender

fun store_step :: "nat \<times> log list \<Rightarrow> store_op \<Rightarrow> nat \<times> log list" where
  "store_step st (Append p now) = logs_reducer st now (ADD p)"
| "store_step st Clear = logs_reducer st 0 CLEAR"
| "store_step st Rerender = render_store st"

text \<open>The ids given to the entries appended while a sequence of operations runs, in order.\<close>

fun issued_ids :: "nat \<times> log list \<Rightarrow> store_op list \<Rightarrow> nat list" where
  "issued_ids st [] = []"
| "issued_ids st (Append p now # ops) =
     log_id (last (snd (store_step st (Append p now))))
       # issued_ids (store_step st (Append p now)) ops"
| "issued_ids st (Clear # ops) = issued_ids (store_step st Clear) ops"
| "issued_ids st (Rerender # ops) = issued_ids (store_step st Rerender) ops"

section \<open>The event sources\<close>

record socket_event =
  se_type :: jsval
  se_message :: jsval
  se_url :: jsval

record device_log =
  dl_type :: jsval
  dl_message :: jsval

text \<open>The \<^verbatim>\<open>map\<close> over \<^verbatim>\<open>socketLogs\<close> (lines 152-188); \<^verbatim>\<open>switch\<close> compares with \<^verbatim>\<open>===\<close>.\<close>

definition socketLogs_map :: "socket_event \<Rightarrow> payload" where
  "socketLogs_map e =
     (if se_type e = JStr ''warning'' then
        \<lparr>p_type = ''warn'', p_text = se_message e, p_object = None\<rparr>
      else if se_type e = JStr ''socket-opened'' then
        \<lparr>p_type = ''verbose'', p_text = JStr (''WS opened '' @ ToString (se_url e)),
         p_object = None\<rparr>
      else if se_type e = JStr ''socket-closed'' then
        \<lparr>p_type = ''verbose'', p_text = JStr ''WS closed'', p_object = None\<rparr>
      else if se_type e = JStr ''socket-message-warning''
            \<or> se_type e = JStr ''socket-message-error''
            \<or> se_type e = JStr ''socket-error'' then
        \<lparr>p_type = ''error'',
         p_text = JStr (ToString (se_type e) @ '' '' @ ToString (se_message e)),
         p_object = None\<rparr>
      else
        \<lparr>p_type = ''verbose'',
         p_text = JStr (''network: '' @ ToString (se_type e)
                    @ (if is_string (se_message e) then '': '' @ ToString (se_message e) else '''')),
         p_object = None\<rparr>)"

text \<open>
  The callback given to \<^verbatim>\<open>listen\<close> (lines 191-204): what it passes to \<^verbatim>\<open>o.next\<close>,
  if anything, and what it prints with \<^verbatim>\<open>console.log\<close>, if anything.
\<close>

definition listen_callback :: "device_log \<Rightarrow> payload option \<times> string option" where
  "listen_callback l =
     (if dl_type l = JStr ''apdu'' then
        (Some \<lparr>p_type = ''apdu'', p_text = dl_message l, p_object = None\<rparr>, None)
      else if dl_type l = JStr ''ble-frame'' \<or> dl_type l = JStr ''hid-frame'' then
        (Some \<lparr>p_type = ''binary'', p_text = dl_message l, p_object = None\<rparr>, None)
      else if dl_type l = JStr ''ble-error'' then
        (Some \<lparr>p_type = ''error'', p_text = dl_message l, p_object = None\<rparr>, None)
      else if dl_type l = JStr ''ble-verbose'' then
        (Some \<lparr>p_type = ''verbose'', p_text = dl_message l, p_object = None\<rparr>, None)
      else
        (None, Some (''(unhandled) '' @ ToString (dl_type l) @ '': '' @ ToString (dl_message l))))"

text \<open>
  \<^verbatim>\<open>eventObservable\<close>: the merge of the two sources, then \<^verbatim>\<open>filter(e => e)\<close>.
  Every emitted value is an object, hence truthy, and passes the filter. The functions
  give the payloads a raw event makes the observable emit.
\<close>

datatype raw_event = Socket socket_event | Device device_log

fun eventObservable :: "raw_event \<Rightarrow> payload list" where
  "eventObservable (Socket e) = [socketLogs_map e]"
| "eventObservable (Device l) = (case fst (listen_callback l) of None \<Rightarrow> [] | Some p \<Rightarrow> [p])"

fun console_output :: "raw_event \<Rightarrow> string list" where
  "console_output (Socket e) = []"
| "console_output (Device l) = (case snd (listen_callback l) of None \<Rightarrow> [] | Some c \<Rightarrow> [c])"

section \<open>The component's state\<close>

text \<open>
  Transport handles and subscriptions are objects compared by identity; a natural
  number stands for each. A command descriptor is used through its \<^verbatim>\<open>id\<close> and through
  \<^verbatim>\<open>getDefaultValue(selectedCommand.form)\<close>, a helper outside this file whose result is
  kept as a field.
\<close>

type_synonym handle = nat

record command =
  cmd_id :: string
  cmd_default :: "jsval list"

text \<open>
  A subscription made by \<^verbatim>\<open>onSendCommand\<close> that can still call back: its identity,
  and the \<^verbatim>\<open>startTime\<close> and \<^verbatim>\<open>selectedCommand\<close> its callbacks closed over.
\<close>

record exec =
  ex_token :: nat
  ex_start :: int
  ex_cmd :: command

text \<open>
  \<^verbatim>\<open>useCallback(f, [transport])\<close> returns the function of the last render in which
  \<^verbatim>\<open>transport\<close> differed from the render before; that function sees the variables of
  the render that made it. The closure of \<^verbatim>\<open>onLeaveTransport\<close> (lines 367-371) reads
  \<^verbatim>\<open>transport\<close> and \<^verbatim>\<open>leftTransports\<close>.
\<close>

record leave_closure =
  cl_transport :: "handle option"
  cl_leftTransports :: "handle list"

text \<open>
  The state: the module-level counter, the values of the hooks (lines 253-321), the
  memoised closure, and what the component has caused outside itself: the handles with
  a disconnect listener attached, the handles \<^verbatim>\<open>open\<close> has resolved with, the
  calls of \<^verbatim>\<open>close()\<close>, the live subscriptions and the console. \<open>fiber_clean\<close> is
  React's own note that the component has no update pending (see the section on
  renders).
\<close>

record app =
  id_counter :: nat
  leftTransports :: "handle list"
  transport :: "handle option"
  transportMode :: string
  transportOpening :: bool
  selectedCommand :: "command option"
  commandSub :: "nat option"
  commandValue :: "jsval list"
  logs :: "log list"
  filters :: "string \<rightharpoonup> bool"
  dependencies :: "jsval option"
  onLeaveTransport_closure :: leave_closure
  listeners :: "handle list"
  opened :: "handle list"
  closeCalls :: "handle list"
  live :: "exec list"
  next_token :: nat
  console :: "string list"
  fiber_clean :: bool

text \<open>The welcome text (lines 244-250), cut to its first line.\<close>

definition announcement :: string where
  "announcement = ''Welcome to Ledger REPL!''"

definition initial_filters :: "string \<rightharpoonup> bool" where
  "initial_filters =
     [''error'' \<mapsto> True, ''warn'' \<mapsto> True, ''command'' \<mapsto> True, ''apdu'' \<mapsto> True,
      ''binary'' \<mapsto> True, ''verbose'' \<mapsto> True, ''announcement'' \<mapsto> True]"

text \<open>
  The state after the first render at clock reading \<open>now\<close>, with the preferred
  transport read from local storage (\<^verbatim>\<open>"webble"\<close> when there is none).
\<close>

definition init :: "int \<Rightarrow> string \<Rightarrow> app" where
  "init now mode =
     \<lparr>id_counter = 1,
      leftTransports = [],
      transport = None,
      transportMode = mode,
      transportOpening = False,
      selectedCommand = None,
      commandSub = None,
      commandValue = [],
      logs = [\<lparr>log_id = 1, log_date = now, log_type = ''announcement'',
               log_text = JStr announcement, log_object = None\<rparr>],
      filters = initial_filters,
      dependencies = None,
      onLeaveTransport_closure = \<lparr>cl_transport = None, cl_leftTransports = []\<rparr>,
      listeners = [],
      opened = [],
      closeCalls = [],
      live = [],
      next_token = 0,
      console = [],
      fiber_clean = True\<rparr>"

section \<open>Logging\<close>

text \<open>
  The state a dispatched action leads to: the reducer's result on it. (When and how
  often React calls the reducer is the matter of the section on renders.)
\<close>

definition dispatch :: "app \<Rightarrow> int \<Rightarrow> log_action \<Rightarrow> app" where
  "dispatch s now a =
     (let st = logs_reducer (id_counter s, logs s) now a
      in s\<lparr>id_counter := fst st, logs := snd st\<rparr>)"

definition addLog :: "app \<Rightarrow> int \<Rightarrow> payload \<Rightarrow> app" where
  "addLog s now p = dispatch s now (ADD p)"

definition clearLogs :: "app \<Rightarrow> app" where
  "clearLogs s = dispatch s 0 CLEAR"

text \<open>The text of \<^verbatim>\<open>addLogError\<close> (lines 289-296).\<close>

definition error_text :: "js_error \<Rightarrow> string" where
  "error_text e =
     (if err_truthy e \<and> truthy (err_name e) \<and> err_name e \<noteq> JStr ''Error''
      then ToString (err_name e) @ '': '' else [])
     @ (if err_truthy e \<and> truthy (err_message e) then ToString (err_message e)
        else err_String e)"

definition addLogError :: "app \<Rightarrow> int \<Rightarrow> js_error \<Rightarrow> app" where
  "addLogError s now e =
     addLog s now \<lparr>p_type = ''error'', p_text = JStr (error_text e), p_object = None\<rparr>"

section \<open>Filters and the rendered log\<close>

text \<open>
  \<^verbatim>\<open>filters[type]\<close> as a condition: a missing key reads \<^verbatim>\<open>undefined\<close>, which is falsy.
\<close>

definition filter_on :: "(string \<rightharpoonup> bool) \<Rightarrow> string \<Rightarrow> bool" where
  "filter_on f k = (case f k of None \<Rightarrow> False | Some b \<Rightarrow> b)"

definition toggleFilter_reducer :: "(string \<rightharpoonup> bool) \<Rightarrow> string \<Rightarrow> (string \<rightharpoonup> bool)" where
  "toggleFilter_reducer f k = f(k \<mapsto> \<not> filter_on f k)"

definition toggleFilter :: "app \<Rightarrow> string \<Rightarrow> app" where
  "toggleFilter s k = s\<lparr>filters := toggleFilter_reducer (filters s) k\<rparr>"

text \<open>The entries the component renders: \<^verbatim>\<open>logs.filter(log => filters[log.type])\<close>.\<close>

definition rendered :: "app \<Rightarrow> log list" where
  "rendered s = filter (\<lambda>l. filter_on (filters s) (log_type l)) (logs s)"

section \<open>Transport session\<close>

definition onOpenTransport :: "app \<Rightarrow> app" where
  "onOpenTransport s = s\<lparr>transportOpening := True, transport := None\<rparr>"

text \<open>
  The callbacks of \<^verbatim>\<open>open(transportMode).then\<close>; \<^verbatim>\<open>listenTransportDisconnect(t)\<close>
  attaches the listener.
\<close>

definition open_resolved :: "app \<Rightarrow> handle \<Rightarrow> app" where
  "open_resolved s t =
     s\<lparr>transportOpening := False, transport := Some t,
       listeners := listeners s @ [t], opened := opened s @ [t]\<rparr>"

definition open_rejected :: "app \<Rightarrow> int \<Rightarrow> js_error \<Rightarrow> app" where
  "open_rejected s now e = addLogError (s\<lparr>transportOpening := False\<rparr>) now e"

definition onLeaveTransport :: "app \<Rightarrow> app" where
  "onLeaveTransport s =
     (case cl_transport (onLeaveTransport_closure s) of
        None \<Rightarrow> s
      | Some t \<Rightarrow>
          s\<lparr>transport := None,
            leftTransports := cl_leftTransports (onLeaveTransport_closure s) @ [t]\<rparr>)"

definition onClose :: "app \<Rightarrow> app" where
  "onClose s =
     (case transport s of
        None \<Rightarrow> s
      | Some t \<Rightarrow> s\<lparr>closeCalls := closeCalls s @ [t]\<rparr>)"

text \<open>The two buttons of a row of \<^verbatim>\<open>leftTransports\<close> (lines 460-473).\<close>

definition reuse :: "app \<Rightarrow> handle \<Rightarrow> app" where
  "reuse s t =
     s\<lparr>transport := Some t,
       leftTransports := filter (\<lambda>lt. lt \<noteq> t) (leftTransports s)\<rparr>"

definition close_left :: "app \<Rightarrow> handle \<Rightarrow> app" where
  "close_left s t = s\<lparr>closeCalls := closeCalls s @ [t]\<rparr>"

text \<open>
  The listener of \<^verbatim>\<open>useListenTransportDisconnect\<close> (lines 234-237): it detaches itself
  and calls the callback of the latest render (lines 357-363).
\<close>

definition on_disconnect :: "app \<Rightarrow> handle \<Rightarrow> app" where
  "on_disconnect s t =
     (let s' = s\<lparr>listeners := filter (\<lambda>h. h \<noteq> t) (listeners s)\<rparr>
      in if transport s = Some t then s'\<lparr>transport := None\<rparr>
         else s'\<lparr>leftTransports := filter (\<lambda>lt. lt \<noteq> t) (leftTransports s)\<rparr>)"

section \<open>Commands\<close>

definition onSelectedCommand :: "app \<Rightarrow> command option \<Rightarrow> app" where
  "onSelectedCommand s c =
     (case (c, transport s) of
        (Some cmd, Some t) \<Rightarrow>
          s\<lparr>dependencies := None, commandValue := cmd_default cmd, selectedCommand := Some cmd\<rparr>
      | _ \<Rightarrow> s)"

text \<open>
  The three callbacks given to \<^verbatim>\<open>subscribe\<close> (lines 420-439), for the subscription
  \<open>x\<close>. \<^verbatim>\<open>complete\<close> reads the clock again.
\<close>

definition exec_next :: "app \<Rightarrow> int \<Rightarrow> jsval \<Rightarrow> app" where
  "exec_next s now result =
     addLog s now \<lparr>p_type = ''command'', p_text = JStr ''<='', p_object = Some result\<rparr>"

definition exec_complete :: "app \<Rightarrow> int \<Rightarrow> exec \<Rightarrow> app" where
  "exec_complete s now x =
     addLog
       (s\<lparr>commandSub := None, live := filter (\<lambda>y. ex_token y \<noteq> ex_token x) (live s)\<rparr>)
       now
       \<lparr>p_type = ''command'',
        p_text = JStr (cmd_id (ex_cmd x) @ '' completed in ''
                   @ format_delta (now - ex_start x) @ ''.''),
        p_object = None\<rparr>"

definition exec_error :: "app \<Rightarrow> int \<Rightarrow> exec \<Rightarrow> js_error \<Rightarrow> app" where
  "exec_error s now x e =
     addLogError
       (s\<lparr>commandSub := None, live := filter (\<lambda>y. ex_token y \<noteq> ex_token x) (live s)\<rparr>)
       now e"

text \<open>
  What the observable of \<^verbatim>\<open>execCommand\<close> (a helper outside this file) does while
  \<^verbatim>\<open>subscribe\<close> runs, before \<^verbatim>\<open>onSendCommand\<close> gets the subscription back: the
  results it emits at once, and whether it then is still running, has completed (at a
  clock reading), or has failed. \<^verbatim>\<open>defer\<close> turns an exception thrown by
  \<^verbatim>\<open>execCommand\<close> into such a failure.
\<close>

datatype sync_end = StillRunning | Completed int | Failed js_error

text \<open>
  \<^verbatim>\<open>onSendCommand\<close> (lines 400-442). The argument of \<^verbatim>\<open>setCommandSub\<close> is evaluated
  first: \<^verbatim>\<open>subscribe\<close> makes the subscription and runs the callbacks of everything the
  observable does at once, \<^verbatim>\<open>setCommandSub(null)\<close> of \<^verbatim>\<open>complete\<close> and \<^verbatim>\<open>error\<close>
  included. Only then is the subscription stored in \<^verbatim>\<open>commandSub\<close>, also when it has
  ended already.
\<close>

definition onSendCommand :: "app \<Rightarrow> int \<Rightarrow> jsval list \<Rightarrow> sync_end \<Rightarrow> app" where
  "onSendCommand s now results ending =
     (case (selectedCommand s, transport s) of
        (Some cmd, Some t) \<Rightarrow>
          (let s1 = addLog s now
                      \<lparr>p_type = ''command'', p_text = JStr (''=>'' @ nbsp @ cmd_id cmd),
                       p_object = None\<rparr>;
               s2 = foldl (\<lambda>a object.
                             addLog a now
                               \<lparr>p_type = ''command'', p_text = JStr (''+'' @ nbsp),
                                p_object = Some object\<rparr>)
                      s1 (commandValue s);
               x = \<lparr>ex_token = next_token s, ex_start = now, ex_cmd = cmd\<rparr>;
               s3 = foldl (\<lambda>a result. exec_next a now result)
                      (s2\<lparr>live := live s @ [x]\<rparr>) results;
               s4 = (case ending of
                       StillRunning \<Rightarrow> s3
                     | Completed now' \<Rightarrow> exec_complete s3 now' x
                     | Failed e \<Rightarrow> exec_error s3 now x e)
           in s4\<lparr>commandSub := Some (next_token s), next_token := next_token s + 1\<rparr>)
      | _ \<Rightarrow> s)"

definition onCommandCancel :: "app \<Rightarrow> app" where
  "onCommandCancel s =
     (case commandSub s of
        None \<Rightarrow> s
      | Some tok \<Rightarrow>
          s\<lparr>live := filter (\<lambda>x. ex_token x \<noteq> tok) (live s), commandSub := None\<rparr>)"

definition find_exec :: "exec list \<Rightarrow> nat \<Rightarrow> exec option" where
  "find_exec xs tok = find (\<lambda>x. ex_token x = tok) xs"

section \<open>Events\<close>

text \<open>
  What can happen to the mounted component: the clicks its render offers
  (lines 452-612), and the callbacks of its promises, subscriptions and listeners.
  A click on Send comes with what the execution does while \<^verbatim>\<open>subscribe\<close> runs; the
  callbacks of a subscription that is still running then come as events of their own.
\<close>

datatype event =
    ClickOpen
  | OpenResolved handle
  | OpenRejected js_error
  | ClickLeave
  | ClickClose
  | ClickReuse handle
  | ClickCloseLeft handle
  | Disconnect handle
  | SelectTransportMode string
  | SelectCommand "command option"
  | DependenciesResolved jsval
  | DependenciesRejected js_error
  | FormChange "jsval list"
  | ClickSend "jsval list" sync_end
  | ClickCancel
  | ExecNext nat jsval
  | ExecComplete nat
  | ExecError nat js_error
  | ExchangeFailed js_error
  | Raw raw_event
  | ClickFilter string
  | ClickClearLogs

text \<open>The handler an event runs, at clock reading \<open>now\<close>.\<close>

fun handle_event :: "app \<Rightarrow> int \<Rightarrow> event \<Rightarrow> app" where
  "handle_event s now ClickOpen = onOpenTransport s"
| "handle_event s now (OpenResolved t) = open_resolved s t"
| "handle_event s now (OpenRejected e) = open_rejected s now e"
| "handle_event s now ClickLeave = onLeaveTransport s"
| "handle_event s now ClickClose = onClose s"
| "handle_event s now (ClickReuse t) = reuse s t"
| "handle_event s now (ClickCloseLeft t) = close_left s t"
| "handle_event s now (Disconnect t) = on_disconnect s t"
| "handle_event s now (SelectTransportMode m) = s\<lparr>transportMode := m\<rparr>"
| "handle_event s now (SelectCommand c) = onSelectedCommand s c"
| "handle_event s now (DependenciesResolved d) = s\<lparr>dependencies := Some d\<rparr>"
| "handle_event s now (DependenciesRejected e) = addLogError s now e"
| "handle_event s now (FormChange v) = s\<lparr>commandValue := v\<rparr>"
| "handle_event s now (ClickSend rs ending) = onSendCommand s now rs ending"
| "handle_event s now ClickCancel = onCommandCancel s"
| "handle_event s now (ExecNext tok r) =
     (case find_exec (live s) tok of None \<Rightarrow> s | Some x \<Rightarrow> exec_next s now r)"
| "handle_event s now (ExecComplete tok) =
     (case find_exec (live s) tok of None \<Rightarrow> s | Some x \<Rightarrow> exec_complete s now x)"
| "handle_event s now (ExecError tok e) =
     (case find_exec (live s) tok of None \<Rightarrow> s | Some x \<Rightarrow> exec_error s now x e)"
| "handle_event s now (ExchangeFailed e) = addLogError s now e"
| "handle_event s now (Raw r) =
     (foldl (\<lambda>a p. addLog a now p) s (eventObservable r))
       \<lparr>console := console s @ console_output r\<rparr>"
| "handle_event s now (ClickFilter k) = toggleFilter s k"
| "handle_event s now ClickClearLogs = clearLogs s"

section \<open>Renders\<close>

text \<open>
  How often React (version 16, as \<^verbatim>\<open>package.json\<close> asks for) runs the component's body
  and the reducer decides the value of the counter, since both evaluate \<^verbatim>\<open>++id\<close>.

  \<^item> The setters and dispatches called by a React event handler (a click, a change of a
    select or of the form) are one batch, followed by one render. In a callback of a
    promise, a subscription or a listener, every call is a batch of its own, rendered
    before the next statement runs.
  \<^item> A render runs the body, which evaluates \<^verbatim>\<open>++id\<close> (line 276), and in it the
    reducer on the dispatched actions. So the \<^verbatim>\<open>++id\<close> of the render comes before the
    \<^verbatim>\<open>++id\<close> that gives an entry its id.
  \<^item> While the component has no update pending (\<open>fiber_clean\<close>), React computes the
    next state at once when a setter or a dispatch is called. For a dispatch of
    \<^verbatim>\<open>ADD\<close> this is one more call of the reducer; its result is not used, because
    the reducer of the next render is another function. For a batch that changes no
    state it means that no render follows.
  \<^item> After a render that changed state React still holds the component as pending;
    after a batch that changed nothing it does not.

  \<open>updates s e\<close> lists the batches of the event \<open>e\<close> in the state \<open>s\<close>: for each,
  whether it changes a state (a new array or object is a change) and whether it starts
  with a dispatch of \<^verbatim>\<open>ADD\<close>. In every handler the dispatches of \<^verbatim>\<open>ADD\<close> are in the
  last batch.
\<close>

fun updates :: "app \<Rightarrow> event \<Rightarrow> (bool \<times> bool) list" where
  "updates s ClickOpen = [(\<not> transportOpening s \<or> transport s \<noteq> None, False)]"
| "updates s (OpenResolved t) = [(transportOpening s, False), (transport s \<noteq> Some t, False)]"
| "updates s (OpenRejected e) = [(transportOpening s, False), (True, True)]"
| "updates s ClickLeave =
     (case cl_transport (onLeaveTransport_closure s) of None \<Rightarrow> [] | Some t \<Rightarrow> [(True, False)])"
| "updates s ClickClose = []"
| "updates s (ClickReuse t) = [(True, False)]"
| "updates s (ClickCloseLeft t) = []"
| "updates s (Disconnect t) = [(True, False)]"
| "updates s (SelectTransportMode m) = [(m \<noteq> transportMode s, False)]"
| "updates s (SelectCommand c) =
     (case (c, transport s) of (Some cmd, Some t) \<Rightarrow> [(True, False)] | _ \<Rightarrow> [])"
| "updates s (DependenciesResolved d) = [(True, False)]"
| "updates s (DependenciesRejected e) = [(True, True)]"
| "updates s (FormChange v) = [(True, False)]"
| "updates s (ClickSend rs ending) =
     (case (selectedCommand s, transport s) of (Some cmd, Some t) \<Rightarrow> [(True, True)] | _ \<Rightarrow> [])"
| "updates s ClickCancel = (case commandSub s of None \<Rightarrow> [] | Some tok \<Rightarrow> [(True, False)])"
| "updates s (ExecNext tok r) =
     (case find_exec (live s) tok of None \<Rightarrow> [] | Some x \<Rightarrow> [(True, True)])"
| "updates s (ExecComplete tok) =
     (case find_exec (live s) tok of
        None \<Rightarrow> []
      | Some x \<Rightarrow> [(commandSub s \<noteq> None, False), (True, True)])"
| "updates s (ExecError tok e) =
     (case find_exec (live s) tok of
        None \<Rightarrow> []
      | Some x \<Rightarrow> [(commandSub s \<noteq> None, False), (True, True)])"
| "updates s (ExchangeFailed e) = [(True, True)]"
| "updates s (Raw r) = map (\<lambda>p. (True, True)) (eventObservable r)"
| "updates s (ClickFilter k) = [(True, False)]"
| "updates s ClickClearLogs = [(True, False)]"

text \<open>
  For a list of batches, from the component being clean or not: how many times
  \<^verbatim>\<open>++id\<close> is evaluated other than for the id of an entry, whether a render happens,
  and whether the component is clean afterwards.
\<close>

fun react :: "bool \<Rightarrow> (bool \<times> bool) list \<Rightarrow> nat \<times> bool \<times> bool" where
  "react clean [] = (0, False, clean)"
| "react clean ((changed, add) # bs) =
     (let eager = (if clean \<and> add then 1 else 0);
          renders = (if clean \<and> \<not> changed then 0 else 1);
          rest = react (\<not> changed) bs
      in (eager + renders + fst rest, renders = 1 \<or> fst (snd rest), snd (snd rest)))"

text \<open>
  What a render does to the memoised closure: \<^verbatim>\<open>useCallback\<close> replaces the closure of
  \<^verbatim>\<open>onLeaveTransport\<close> when \<^verbatim>\<open>transport\<close> is not the one of the previous render.
\<close>

definition render :: "app \<Rightarrow> app" where
  "render s =
     s\<lparr>onLeaveTransport_closure :=
         (if transport s \<noteq> cl_transport (onLeaveTransport_closure s)
          then \<lparr>cl_transport = transport s, cl_leftTransports = leftTransports s\<rparr>
          else onLeaveTransport_closure s)\<rparr>"

text \<open>
  A step: the event's handler with its renders. The handlers read the counter only
  through the reducer, and the evaluations of \<^verbatim>\<open>++id\<close> that give no entry its id all
  come before the reducer runs on the event's actions, so they are counted first.
\<close>

definition step :: "app \<Rightarrow> int \<times> event \<Rightarrow> app" where
  "step s te =
     (let r = react (fiber_clean s) (updates s (snd te));
          s1 = handle_event (s\<lparr>id_counter := id_counter s + fst r\<rparr>) (fst te) (snd te);
          s2 = (if fst (snd r) then render s1 else s1)
      in s2\<lparr>fiber_clean := snd (snd r)\<rparr>)"

definition run :: "app \<Rightarrow> (int \<times> event) list \<Rightarrow> app" where
  "run s tes = foldl step s tes"

text \<open>
  When an event can happen. A click needs its button rendered and enabled
  (lines 456-583); \<^verbatim>\<open>open\<close> settles once per call, with a handle it has not given
  before; a handle notifies its disconnection while the listener is attached; a
  subscription calls back while it is live. The other callbacks can come at any time.
\<close>

fun enabled :: "app \<Rightarrow> event \<Rightarrow> bool" where
  "enabled s ClickOpen = (transport s = None \<and> \<not> transportOpening s)"
| "enabled s (OpenResolved t) = (transportOpening s \<and> t \<notin> set (opened s))"
| "enabled s (OpenRejected e) = transportOpening s"
| "enabled s ClickLeave = (transport s \<noteq> None)"
| "enabled s ClickClose = (transport s \<noteq> None)"
| "enabled s (ClickReuse t) = (t \<in> set (leftTransports s))"
| "enabled s (ClickCloseLeft t) = (t \<in> set (leftTransports s))"
| "enabled s (Disconnect t) = (t \<in> set (listeners s))"
| "enabled s (SelectTransportMode m) = (transport s = None)"
| "enabled s (SelectCommand c) = (transport s \<noteq> None \<and> commandSub s = None)"
| "enabled s (DependenciesResolved d) = True"
| "enabled s (DependenciesRejected e) = True"
| "enabled s (FormChange v) = (transport s \<noteq> None \<and> selectedCommand s \<noteq> None)"
| "enabled s (ClickSend rs ending) =
     (transport s \<noteq> None \<and> selectedCommand s \<noteq> None \<and> commandSub s = None)"
| "enabled s ClickCancel =
     (transport s \<noteq> None \<and> selectedCommand s \<noteq> None \<and> commandSub s \<noteq> None)"
| "enabled s (ExecNext tok r) = (find_exec (live s) tok \<noteq> None)"
| "enabled s (ExecComplete tok) = (find_exec (live s) tok \<noteq> None)"
| "enabled s (ExecError tok e) = (find_exec (live s) tok \<noteq> None)"
| "enabled s (ExchangeFailed e) = True"
| "enabled s (Raw r) = True"
| "enabled s (ClickFilter k) = (k \<in> {''command'', ''apdu'', ''binary'', ''verbose''})"
| "enabled s ClickClearLogs = True"

fun valid_trace :: "app \<Rightarrow> (int \<times> event) list \<Rightarrow> bool" where
  "valid_trace s [] = True"
| "valid_trace s (te # tes) = (enabled s (snd te) \<and> valid_trace (step s te) tes)"

section \<open>The mapping tables of the specification\<close>

text \<open>
  The table of the device-log source as the specification gives it: the kind each
  recognised raw type is logged with; any other type has no entry.
\<close>

definition device_log_table :: "jsval \<Rightarrow> string option" where
  "device_log_table t =
     map_of [(JStr ''apdu'', ''apdu''), (JStr ''ble-frame'', ''binary''),
             (JStr ''hid-frame'', ''binary''), (JStr ''ble-error'', ''error''),
             (JStr ''ble-verbose'', ''verbose'')] t"

text \<open>
  The table of the network-diagnostics source as the specification gives it: kind
  and text for each recognised raw type, and the synthesised verbose entry otherwise.
\<close>

definition network_table :: "socket_event \<Rightarrow> string \<times> jsval" where
  "network_table e =
     (case map_of
             [(JStr ''warning'', (''warn'', se_message e)),
              (JStr ''socket-opened'', (''verbose'', JStr (''WS opened '' @ ToString (se_url e)))),
              (JStr ''socket-closed'', (''verbose'', JStr ''WS closed'')),
              (JStr ''socket-message-warning'',
                 (''error'', JStr (''socket-message-warning '' @ ToString (se_message e)))),
              (JStr ''socket-message-error'',
                 (''error'', JStr (''socket-message-error '' @ ToString (se_message e)))),
              (JStr ''socket-error'', (''error'', JStr (''socket-error '' @ ToString (se_message e))))]
             (se_type e) of
        Some kt \<Rightarrow> kt
      | None \<Rightarrow>
          (''verbose'',
           JStr (''network: '' @ ToString (se_type e)
                 @ (case se_message e of JStr m \<Rightarrow> '': '' @ m | JOther b r \<Rightarrow> []))))"

section \<open>Invariants\<close>

text \<open>
  Of the transport session: the active handle is not in \<^verbatim>\<open>leftTransports\<close>, the
  closure of \<^verbatim>\<open>onLeaveTransport\<close> holds the current \<^verbatim>\<open>transport\<close>, and every handle the
  component holds is one \<^verbatim>\<open>open\<close> has resolved with. Of the executions: the live
  subscriptions are at most one, which then is the one in \<^verbatim>\<open>commandSub\<close>, and its
  token is below the next one.
\<close>

definition session_inv :: "app \<Rightarrow> bool" where
  "session_inv s =
     ((case transport s of
         None \<Rightarrow> True
       | Some h \<Rightarrow> h \<notin> set (leftTransports s) \<and> h \<in> set (opened s))
      \<and> cl_transport (onLeaveTransport_closure s) = transport s
      \<and> set (leftTransports s) \<subseteq> set (opened s)
      \<and> set (cl_leftTransports (onLeaveTransport_closure s)) \<subseteq> set (opened s))"

definition exec_inv :: "app \<Rightarrow> bool" where
  "exec_inv s =
     (case live s of
        [] \<Rightarrow> True
      | [x] \<Rightarrow> commandSub s = Some (ex_token x) \<and> ex_token x < next_token s
      | x # y # xs \<Rightarrow> False)"

section \<open>Example traces\<close>

definition c9_trace :: "(int \<times> event) list" where
  "c9_trace =
     [(10, ClickFilter ''command''), (20, ClickOpen),
      (30, OpenRejected \<lparr>err_truthy = True, err_name = JStr ''TransportOpenUserCancelled'',
                          err_message = JStr ''no device'', err_String = ''x''\<rparr>),
      (40, ClickFilter ''verbose'')]"

definition drop_active_trace :: "(int \<times> event) list" where
  "drop_active_trace =
     [(1, ClickOpen), (2, OpenResolved 1), (3, ClickLeave),
      (4, ClickOpen), (5, OpenResolved 2)]"

definition stale_leave_trace :: "(int \<times> event) list" where
  "stale_leave_trace =
     [(1, ClickOpen), (2, OpenResolved 1), (3, ClickLeave),
      (4, ClickOpen), (5, OpenResolved 2), (6, Disconnect 1)]"

definition running_trace :: "(int \<times> event) list" where
  "running_trace =
     [(1, ClickOpen), (2, OpenResolved 1),
      (3, SelectCommand (Some \<lparr>cmd_id = ''getAddress'', cmd_default = [JStr ''44/0/0/0/0'']\<rparr>)),
      (4, ClickSend [] StillRunning)]"

definition completion_trace :: "(int \<times> event) list" where
  "completion_trace =
     running_trace
     @ [(5, ExecNext 0 (JOther True ''[object Object]'')),
        (6, ExecNext 0 (JOther True ''[object Object]'')),
        (7, ExecNext 0 (JOther True ''[object Object]''))]"

definition sync_failure_trace :: "(int \<times> event) list" where
  "sync_failure_trace =
     [(1, ClickOpen), (2, OpenResolved 1),
      (3, SelectCommand (Some \<lparr>cmd_id = ''getAddress'', cmd_default = [JStr ''44/0/0/0/0'']\<rparr>)),
      (4, ClickSend []
            (Failed \<lparr>err_truthy = True, err_name = JStr ''TypeError'',
                      err_message = JStr ''Cannot read property of null'',
                      err_String = ''TypeError: Cannot read property of null''\<rparr>))]"

section \<open>Ids of the log store\<close>

lemma fst_store_step: "fst st \<le> fst (store_step st op)"
  by (cases op) (simp_all add: logs_reducer_def render_store_def)

lemma issued_ids_above: "sorted_wrt (<) (fst st # issued_ids st ops)"
proof (induction ops arbitrary: st)
  case Nil
  show ?case by simp
next
  case (Cons op ops)
  have le: "fst st \<le> fst (store_step st op)" by (rule fst_store_step)
  from Cons.IH [of "store_step st op"]
  have ih: "(\<forall>i\<in>set (issued_ids (store_step st op) ops). fst (store_step st op) < i)"
    and srt: "sorted_wrt (<) (issued_ids (store_step st op) ops)"
    by simp_all
  show ?case
  proof (cases op)
    case (Append p now)
    have new: "log_id (last (snd (store_step st (Append p now)))) = fst st + 1"
      and cnt: "fst (store_step st (Append p now)) = fst st + 1"
      by (simp_all add: logs_reducer_def)
    from ih srt Append new cnt show ?thesis by auto
  next
    case Clear
    with ih srt le show ?thesis by auto
  next
    case Rerender
    with ih srt le show ?thesis by auto
  qed
qed

lemma issued_ids_append:
  "issued_ids st (ops @ ops') = issued_ids st ops @ issued_ids (foldl store_step st ops) ops'"
proof (induction ops arbitrary: st)
  case Nil
  show ?case by simp
next
  case (Cons op ops)
  then show ?case by (cases op) simp_all
qed

text \<open>
  Claim C3. From any state of the log store and for any sequence of appends, clears
  and renders, the ids given to the appended entries are strictly increasing, all above
  the counter the sequence started from, and pairwise different. A clear empties the
  log and leaves the counter as it is; the entry appended after a clear that follows the
  sequence gets an id that comes last in the strictly increasing list of all ids given.
\<close>

theorem C3_ids_strictly_increasing:
  "sorted_wrt (<) (fst st # issued_ids st ops)
   \<and> distinct (issued_ids st ops)
   \<and> snd (store_step st Clear) = []
   \<and> fst (store_step st Clear) = fst st
   \<and> issued_ids st (ops @ [Clear, Append p now])
       = issued_ids st ops
         @ [log_id (last (snd (store_step (store_step (foldl store_step st ops) Clear)
                                 (Append p now))))]
   \<and> sorted_wrt (<) (issued_ids st (ops @ [Clear, Append p now]))"
proof -
  have a: "sorted_wrt (<) (fst st # issued_ids st ops)" by (rule issued_ids_above)
  then have s: "sorted_wrt (<) (issued_ids st ops)" by simp
  have d: "distinct (issued_ids st ops)"
    using s by (simp add: strict_sorted_iff)
  have c: "snd (store_step st Clear) = []" "fst (store_step st Clear) = fst st"
    by (simp_all add: logs_reducer_def)
  have e: "issued_ids st (ops @ [Clear, Append p now])
       = issued_ids st ops
         @ [log_id (last (snd (store_step (store_step (foldl store_step st ops) Clear)
                                 (Append p now))))]"
    by (simp add: issued_ids_append)
  have "sorted_wrt (<) (fst st # issued_ids st (ops @ [Clear, Append p now]))"
    by (rule issued_ids_above)
  then have f: "sorted_wrt (<) (issued_ids st (ops @ [Clear, Append p now]))" by simp
  from a d c e f show ?thesis by blast
qed

section \<open>Classification of raw events\<close>

lemma logs_addLog:
  "logs (addLog s now p) =
     logs s @ [\<lparr>log_id = id_counter s + 1, log_date = now, log_type = p_type p,
                log_text = p_text p, log_object = p_object p\<rparr>]"
  by (simp add: addLog_def dispatch_def logs_reducer_def)

text \<open>
  Claim C4. A raw device-log event whose type is none of apdu, ble-frame, hid-frame,
  ble-error and ble-verbose makes the observable emit nothing, appends no log entry and
  prints one line to the console. An event of one of the five types appends exactly one
  entry, of the kind the table gives (apdu, binary, binary, error, verbose), whose text
  is the event's message, and prints nothing.
\<close>

theorem C4_device_log_mapping:
  "logs (handle_event s now (Raw (Device l)))
     = logs s @ (case device_log_table (dl_type l) of
                   None \<Rightarrow> []
                 | Some k \<Rightarrow> [\<lparr>log_id = id_counter s + 1, log_date = now, log_type = k,
                               log_text = dl_message l, log_object = None\<rparr>])
   \<and> console (handle_event s now (Raw (Device l)))
     = console s @ (case device_log_table (dl_type l) of
                      None \<Rightarrow> [''(unhandled) '' @ ToString (dl_type l) @ '': ''
                                 @ ToString (dl_message l)]
                    | Some k \<Rightarrow> [])
   \<and> eventObservable (Device l)
     = (case device_log_table (dl_type l) of
          None \<Rightarrow> []
        | Some k \<Rightarrow> [\<lparr>p_type = k, p_text = dl_message l, p_object = None\<rparr>])"
  by (simp add: listen_callback_def device_log_table_def logs_addLog)

text \<open>
  Claim C5. A raw network-diagnostics event appends exactly one log entry, with the
  kind and the text of the specification's table: warn and the message for warning;
  verbose and "WS opened " followed by the url for socket-opened; verbose and
  "WS closed" for socket-closed; error and the type, a space and the message for
  socket-message-warning, socket-message-error and socket-error; verbose and
  "network: " followed by the type for anything else, with ": " and the message
  added exactly when the message is a string.
\<close>

theorem C5_network_mapping:
  "logs (handle_event s now (Raw (Socket e)))
     = logs s @ [\<lparr>log_id = id_counter s + 1, log_date = now,
                   log_type = fst (network_table e), log_text = snd (network_table e),
                   log_object = None\<rparr>]
   \<and> eventObservable (Socket e)
     = [\<lparr>p_type = fst (network_table e), p_text = snd (network_table e), p_object = None\<rparr>]"
  by (cases "se_message e") (auto simp add: socketLogs_map_def network_table_def logs_addLog)

section \<open>Error entries\<close>

lemma logs_addLogError:
  "logs (addLogError s now e) =
     logs s @ [\<lparr>log_id = id_counter s + 1, log_date = now, log_type = ''error'',
                log_text = JStr (error_text e), log_object = None\<rparr>]"
  by (simp add: addLogError_def logs_addLog)

text \<open>
  Claim C10. For every value \<open>e\<close> given to \<^verbatim>\<open>addLogError\<close>, exactly one entry is
  appended, of kind error. Its text is a prefix followed by a body. The prefix is the
  name of \<open>e\<close> followed by ": " when \<open>e\<close> has a name (\<open>e\<close> and its name are truthy) that
  is not the string "Error", and empty otherwise. The body is the message of \<open>e\<close> as a
  string when \<open>e\<close> has a truthy message, and \<^verbatim>\<open>String(e)\<close> otherwise. A failed
  \<^verbatim>\<open>open\<close>, a failed resolution of dependencies, a failed exchange and a failed
  execution all append this entry.
\<close>

theorem C10_error_entry:
  "logs (addLogError s now e)
     = logs s @ [\<lparr>log_id = id_counter s + 1, log_date = now, log_type = ''error'',
                   log_text =
                     JStr ((if err_truthy e \<and> truthy (err_name e) \<and> err_name e \<noteq> JStr ''Error''
                            then ToString (err_name e) @ '': '' else [])
                           @ (if err_truthy e \<and> truthy (err_message e)
                              then ToString (err_message e) else err_String e)),
                   log_object = None\<rparr>]
   \<and> logs (handle_event s now (OpenRejected e)) = logs (addLogError s now e)
   \<and> logs (handle_event s now (DependenciesRejected e)) = logs (addLogError s now e)
   \<and> logs (handle_event s now (ExchangeFailed e)) = logs (addLogError s now e)
   \<and> logs (exec_error s now x e) = logs (addLogError s now e)"
  by (simp add: logs_addLogError error_text_def open_rejected_def exec_error_def)

section \<open>Filters\<close>

lemma filter_on_toggle:
  "filter_on (toggleFilter_reducer f k) j = (if j = k then \<not> filter_on f k else filter_on f j)"
  by (simp add: toggleFilter_reducer_def filter_on_def)

lemma filter_on_toggle_twice:
  "filter_on (toggleFilter_reducer (toggleFilter_reducer f k) k) j = filter_on f j"
  by (simp add: filter_on_toggle)

lemma toggle_twice_in_dom:
  assumes "k \<in> dom f"
  shows "toggleFilter_reducer (toggleFilter_reducer f k) k = f"
proof
  fix j
  from assms obtain b where "f k = Some b" by auto
  then show "toggleFilter_reducer (toggleFilter_reducer f k) k j = f j"
    by (simp add: toggleFilter_reducer_def filter_on_def)
qed

text \<open>
  Claim C7. Toggling the filter of a kind \<open>k\<close> leaves the stored entries and the id
  counter as they are, also after the render that follows. The rendered entries are
  the stored ones, in their order, with the entries of kind \<open>k\<close> switched between shown
  and hidden and every other entry as before. Toggling \<open>k\<close> twice gives the rendered
  entries from before, and, when \<open>k\<close> is a key of the filter state (as each of the seven
  kinds is), the very same state.
\<close>

theorem C7_toggle_is_projection:
  "logs (toggleFilter s k) = logs s
   \<and> id_counter (toggleFilter s k) = id_counter s
   \<and> logs (step s (now, ClickFilter k)) = logs s
   \<and> rendered (toggleFilter s k)
       = filter (\<lambda>l. if log_type l = k then \<not> filter_on (filters s) k
                      else filter_on (filters s) (log_type l)) (logs s)
   \<and> rendered (toggleFilter (toggleFilter s k) k) = rendered s
   \<and> (k \<in> dom (filters s) \<longrightarrow> toggleFilter (toggleFilter s k) k = s)"
proof -
  have a: "logs (toggleFilter s k) = logs s" "id_counter (toggleFilter s k) = id_counter s"
    "logs (step s (now, ClickFilter k)) = logs s"
    by (simp_all add: toggleFilter_def step_def render_def Let_def)
  have b: "rendered (toggleFilter s k)
       = filter (\<lambda>l. if log_type l = k then \<not> filter_on (filters s) k
                      else filter_on (filters s) (log_type l)) (logs s)"
    by (simp add: rendered_def toggleFilter_def filter_on_toggle)
  have c: "rendered (toggleFilter (toggleFilter s k) k) = rendered s"
    by (simp add: rendered_def toggleFilter_def filter_on_toggle_twice)
  have d: "k \<in> dom (filters s) \<longrightarrow> toggleFilter (toggleFilter s k) k = s"
    by (simp add: toggleFilter_def toggle_twice_in_dom)
  from a b c d show ?thesis by blast
qed

theorem C7_toggle_witness:
  "''command'' \<in> dom (filters (init 0 ''webble''))
   \<and> toggleFilter (toggleFilter (init 0 ''webble'') ''command'') ''command'' = init 0 ''webble''
   \<and> rendered (toggleFilter (init 0 ''webble'') ''announcement'') = []
   \<and> logs (toggleFilter (init 0 ''webble'') ''announcement'') = logs (init 0 ''webble'')"
proof -
  have h: "''command'' \<in> dom (filters (init 0 ''webble''))"
    by (simp add: init_def initial_filters_def)
  have r: "rendered (toggleFilter (init 0 ''webble'') ''announcement'') = []"
    using C7_toggle_is_projection [of "init 0 ''webble''" "''announcement''"]
    by (simp add: init_def initial_filters_def filter_on_def)
  from h r C7_toggle_is_projection [of "init 0 ''webble''" "''command''"]
    C7_toggle_is_projection [of "init 0 ''webble''" "''announcement''"]
  show ?thesis by blast
qed

section \<open>What the handlers leave unchanged\<close>

lemma addLog_eq:
  "addLog s now p =
     s\<lparr>id_counter := id_counter s + 1,
       logs := logs s @ [\<lparr>log_id = id_counter s + 1, log_date = now, log_type = p_type p,
                          log_text = p_text p, log_object = p_object p\<rparr>]\<rparr>"
  by (simp add: addLog_def dispatch_def logs_reducer_def)

lemma foldl_addLog_frame:
  assumes "\<And>a p. g (addLog a now p) = g a"
  shows "g (foldl (\<lambda>a x. addLog a now (f x)) s xs) = g s"
  using assms by (induction xs arbitrary: s) simp_all

lemma addLog_frame:
  "filters (addLog s now p) = filters s"
  "transport (addLog s now p) = transport s"
  "leftTransports (addLog s now p) = leftTransports s"
  "onLeaveTransport_closure (addLog s now p) = onLeaveTransport_closure s"
  "listeners (addLog s now p) = listeners s"
  "opened (addLog s now p) = opened s"
  "closeCalls (addLog s now p) = closeCalls s"
  "transportOpening (addLog s now p) = transportOpening s"
  "selectedCommand (addLog s now p) = selectedCommand s"
  "commandSub (addLog s now p) = commandSub s"
  "live (addLog s now p) = live s"
  "next_token (addLog s now p) = next_token s"
  "console (addLog s now p) = console s"
  by (simp_all add: addLog_eq)

lemma foldl_frame:
  "filters (foldl (\<lambda>a x. addLog a now (f x)) s xs) = filters s"
  "transport (foldl (\<lambda>a x. addLog a now (f x)) s xs) = transport s"
  "leftTransports (foldl (\<lambda>a x. addLog a now (f x)) s xs) = leftTransports s"
  "onLeaveTransport_closure (foldl (\<lambda>a x. addLog a now (f x)) s xs) = onLeaveTransport_closure s"
  "listeners (foldl (\<lambda>a x. addLog a now (f x)) s xs) = listeners s"
  "opened (foldl (\<lambda>a x. addLog a now (f x)) s xs) = opened s"
  "closeCalls (foldl (\<lambda>a x. addLog a now (f x)) s xs) = closeCalls s"
  "transportOpening (foldl (\<lambda>a x. addLog a now (f x)) s xs) = transportOpening s"
  "selectedCommand (foldl (\<lambda>a x. addLog a now (f x)) s xs) = selectedCommand s"
  "commandSub (foldl (\<lambda>a x. addLog a now (f x)) s xs) = commandSub s"
  "live (foldl (\<lambda>a x. addLog a now (f x)) s xs) = live s"
  "next_token (foldl (\<lambda>a x. addLog a now (f x)) s xs) = next_token s"
  "console (foldl (\<lambda>a x. addLog a now (f x)) s xs) = console s"
  by (rule foldl_addLog_frame, simp add: addLog_frame)+

lemma foldl_frame_id:
  "filters (foldl (\<lambda>a p. addLog a now p) s ps) = filters s"
  "transport (foldl (\<lambda>a p. addLog a now p) s ps) = transport s"
  "leftTransports (foldl (\<lambda>a p. addLog a now p) s ps) = leftTransports s"
  "onLeaveTransport_closure (foldl (\<lambda>a p. addLog a now p) s ps) = onLeaveTransport_closure s"
  "listeners (foldl (\<lambda>a p. addLog a now p) s ps) = listeners s"
  "opened (foldl (\<lambda>a p. addLog a now p) s ps) = opened s"
  "closeCalls (foldl (\<lambda>a p. addLog a now p) s ps) = closeCalls s"
  "transportOpening (foldl (\<lambda>a p. addLog a now p) s ps) = transportOpening s"
  "selectedCommand (foldl (\<lambda>a p. addLog a now p) s ps) = selectedCommand s"
  "commandSub (foldl (\<lambda>a p. addLog a now p) s ps) = commandSub s"
  "live (foldl (\<lambda>a p. addLog a now p) s ps) = live s"
  "next_token (foldl (\<lambda>a p. addLog a now p) s ps) = next_token s"
  "console (foldl (\<lambda>a p. addLog a now p) s ps) = console s"
  using foldl_frame [where f = "\<lambda>x. x"] by simp_all

lemmas handler_defs =
  onOpenTransport_def open_resolved_def open_rejected_def onLeaveTransport_def onClose_def
  reuse_def close_left_def on_disconnect_def onSelectedCommand_def onSendCommand_def
  onCommandCancel_def exec_next_def exec_complete_def exec_error_def addLogError_def
  toggleFilter_def clearLogs_def dispatch_def logs_reducer_def

lemma foldl_exec_next:
  "foldl (\<lambda>a. exec_next a now) s rs
     = foldl (\<lambda>a r. addLog a now
                       \<lparr>p_type = ''command'', p_text = JStr ''<='', p_object = Some r\<rparr>) s rs"
  by (induction rs arbitrary: s) (simp_all add: exec_next_def)

lemmas frames = addLog_frame foldl_frame foldl_frame_id foldl_exec_next

lemmas eval_defs = run_def init_def step_def render_def handler_defs addLog_def Let_def

section \<open>Filters without a toggle\<close>

lemma filters_handle_event:
  "filters (handle_event s now e) =
     (case e of ClickFilter k \<Rightarrow> toggleFilter_reducer (filters s) k | _ \<Rightarrow> filters s)"
  by (cases e) (simp_all add: handler_defs frames Let_def split: option.splits sync_end.splits)

lemma filters_step:
  "filters (step s (now, e)) =
     (case e of ClickFilter j \<Rightarrow> toggleFilter_reducer (filters s) j | _ \<Rightarrow> filters s)"
proof -
  have "filters (step s (now, e))
      = filters (handle_event
                   (s\<lparr>id_counter := id_counter s + fst (react (fiber_clean s) (updates s e))\<rparr>)
                   now e)"
    by (simp add: step_def render_def Let_def)
  also have "\<dots> =
     (case e of ClickFilter j \<Rightarrow> toggleFilter_reducer (filters s) j | _ \<Rightarrow> filters s)"
    unfolding filters_handle_event by (simp split: event.splits)
  finally show ?thesis .
qed

lemma filters_step_other:
  assumes "enabled s e" and "k \<notin> {''command'', ''apdu'', ''binary'', ''verbose''}"
  shows "filters (step s (now, e)) k = filters s k"
proof -
  have "filters (step s (now, e)) k =
      (case e of ClickFilter j \<Rightarrow> toggleFilter_reducer (filters s) j | _ \<Rightarrow> filters s) k"
    by (simp add: filters_step)
  with assms show ?thesis
    by (cases e) (auto simp add: toggleFilter_reducer_def)
qed

lemma filters_run_other:
  assumes "valid_trace s tes" and "k \<notin> {''command'', ''apdu'', ''binary'', ''verbose''}"
  shows "filters (run s tes) k = filters s k"
  using assms
proof (induction tes arbitrary: s)
  case Nil
  show ?case by (simp add: run_def)
next
  case (Cons te tes)
  from Cons.prems have en: "enabled s (snd te)" and vt: "valid_trace (step s te) tes"
    by simp_all
  have "filters (run (step s te) tes) k = filters (step s te) k"
    using Cons.IH [OF vt Cons.prems(2)] .
  also have "\<dots> = filters s k"
    using filters_step_other [OF en Cons.prems(2), of "fst te"] by simp
  finally show ?case by (simp add: run_def)
qed

text \<open>
  Claim C9. In every state reached from the initial state through events that can
  happen (of the toggles, the render offers those of command, apdu, binary and verbose
  only), the filters of error, warn and announcement are true, and the rendered entries
  of these three kinds are all the stored entries of these kinds, in their order.
\<close>

theorem C9_hidden_filters_stay_on:
  assumes "valid_trace (init t0 mode) tes"
  shows "filters (run (init t0 mode) tes) ''error'' = Some True
   \<and> filters (run (init t0 mode) tes) ''warn'' = Some True
   \<and> filters (run (init t0 mode) tes) ''announcement'' = Some True
   \<and> filter (\<lambda>l. log_type l \<in> {''error'', ''warn'', ''announcement''})
        (rendered (run (init t0 mode) tes))
     = filter (\<lambda>l. log_type l \<in> {''error'', ''warn'', ''announcement''})
        (logs (run (init t0 mode) tes))"
proof -
  let ?s = "run (init t0 mode) tes"
  have e: "filters ?s ''error'' = Some True"
    using filters_run_other [OF assms, of "''error''"] by (simp add: init_def initial_filters_def)
  have w: "filters ?s ''warn'' = Some True"
    using filters_run_other [OF assms, of "''warn''"] by (simp add: init_def initial_filters_def)
  have a: "filters ?s ''announcement'' = Some True"
    using filters_run_other [OF assms, of "''announcement''"]
    by (simp add: init_def initial_filters_def)
  have "filter (\<lambda>l. log_type l \<in> {''error'', ''warn'', ''announcement''}) (rendered ?s)
     = filter (\<lambda>l. log_type l \<in> {''error'', ''warn'', ''announcement''}) (logs ?s)"
    unfolding rendered_def filter_filter
    by (rule filter_cong) (auto simp add: filter_on_def e w a)
  with e w a show ?thesis by blast
qed

theorem C9_witness:
  "valid_trace (init 0 ''webble'') c9_trace
   \<and> filters (run (init 0 ''webble'') c9_trace) ''error'' = Some True
   \<and> filters (run (init 0 ''webble'') c9_trace) ''command'' = Some False
   \<and> map log_type (rendered (run (init 0 ''webble'') c9_trace)) = [''announcement'', ''error'']"
proof -
  have v: "valid_trace (init 0 ''webble'') c9_trace"
    by (simp add: c9_trace_def init_def step_def render_def handler_defs addLog_def)
  have r: "map log_type (logs (run (init 0 ''webble'') c9_trace)) = [''announcement'', ''error'']"
    by (simp add: c9_trace_def run_def init_def step_def render_def handler_defs addLog_def)
  have c: "filters (run (init 0 ''webble'') c9_trace) ''command'' = Some False"
    by (simp add: c9_trace_def run_def init_def step_def render_def handler_defs addLog_def
        initial_filters_def toggleFilter_reducer_def filter_on_def)
  from C9_hidden_filters_stay_on [OF v]
  have f: "filters (run (init 0 ''webble'') c9_trace) ''error'' = Some True"
    and g: "filter (\<lambda>l. log_type l \<in> {''error'', ''warn'', ''announcement''})
        (rendered (run (init 0 ''webble'') c9_trace))
     = filter (\<lambda>l. log_type l \<in> {''error'', ''warn'', ''announcement''})
        (logs (run (init 0 ''webble'') c9_trace))"
    by blast+
  have "map log_type (rendered (run (init 0 ''webble'') c9_trace)) = [''announcement'', ''error'']"
    by (simp add: c9_trace_def run_def init_def step_def render_def handler_defs addLog_def
        initial_filters_def toggleFilter_reducer_def filter_on_def rendered_def)
  with v f c show ?thesis by blast
qed

text \<open>
  The filter state keeps its seven keys in every reachable state, so toggling any of
  the seven kinds twice gives back the very same state there.
\<close>

lemma dom_filters_step:
  assumes "enabled s e"
    and "{''command'', ''apdu'', ''binary'', ''verbose''} \<subseteq> dom (filters s)"
  shows "dom (filters (step s (now, e))) = dom (filters s)"
proof -
  have "filters (step s (now, e)) =
      (case e of ClickFilter j \<Rightarrow> toggleFilter_reducer (filters s) j | _ \<Rightarrow> filters s)"
    by (rule filters_step)
  with assms show ?thesis
    by (cases e) (auto simp add: toggleFilter_reducer_def)
qed

lemma dom_filters_run:
  assumes "valid_trace s tes"
    and "{''command'', ''apdu'', ''binary'', ''verbose''} \<subseteq> dom (filters s)"
  shows "dom (filters (run s tes)) = dom (filters s)"
  using assms
proof (induction tes arbitrary: s)
  case Nil
  show ?case by (simp add: run_def)
next
  case (Cons te tes)
  from Cons.prems have en: "enabled s (snd te)" and vt: "valid_trace (step s te) tes"
    by simp_all
  have d: "dom (filters (step s te)) = dom (filters s)"
    using dom_filters_step [OF en Cons.prems(2), of "fst te"] by simp
  with Cons.prems(2)
  have "{''command'', ''apdu'', ''binary'', ''verbose''} \<subseteq> dom (filters (step s te))"
    by simp
  from Cons.IH [OF vt this] d show ?case by (simp add: run_def)
qed

lemma toggle_involution_reachable:
  assumes "valid_trace (init t0 mode) tes"
    and "k \<in> {''error'', ''warn'', ''command'', ''apdu'', ''binary'', ''verbose'', ''announcement''}"
  shows "toggleFilter (toggleFilter (run (init t0 mode) tes) k) k = run (init t0 mode) tes"
proof -
  have "dom (filters (run (init t0 mode) tes)) = dom (filters (init t0 mode))"
    by (rule dom_filters_run [OF assms(1)]) (simp add: init_def initial_filters_def)
  with assms(2) have "k \<in> dom (filters (run (init t0 mode) tes))"
    by (auto simp add: init_def initial_filters_def)
  then show ?thesis by (simp add: toggleFilter_def toggle_twice_in_dom)
qed

section \<open>Handles of the session\<close>

lemma session_inv_init: "session_inv (init t0 mode)"
  by (simp add: session_inv_def init_def)

lemma session_inv_step:
  assumes "session_inv s" and "enabled s e"
  shows "session_inv (step s (now, e))"
  using assms
  by (cases e)
     (auto simp add: session_inv_def step_def render_def handler_defs frames Let_def
        split: option.splits sync_end.splits)

lemma session_inv_run:
  assumes "session_inv s" and "valid_trace s tes"
  shows "session_inv (run s tes)"
  using assms
proof (induction tes arbitrary: s)
  case Nil
  then show ?case by (simp add: run_def)
next
  case (Cons te tes)
  from Cons.prems have en: "enabled s (snd te)" and vt: "valid_trace (step s te) tes"
    by simp_all
  have "session_inv (step s te)"
    using session_inv_step [OF Cons.prems(1) en, of "fst te"] by simp
  from Cons.IH [OF this vt] show ?case by (simp add: run_def)
qed

lemma leaving_active:
  assumes "session_inv s" and "enabled s e"
    and "transport s = Some h" and "transport (step s (now, e)) \<noteq> Some h"
  shows "(e = ClickLeave \<and> h \<in> set (leftTransports (step s (now, e))))
     \<or> (e = Disconnect h \<and> h \<notin> set (leftTransports (step s (now, e))))
     \<or> (\<exists>t. t \<noteq> h \<and> (e = ClickReuse t \<or> e = OpenResolved t)
            \<and> transport (step s (now, e)) = Some t
            \<and> h \<notin> set (leftTransports (step s (now, e)))
            \<and> closeCalls (step s (now, e)) = closeCalls s)"
  using assms
  by (cases e)
     (auto simp add: session_inv_def step_def render_def handler_defs frames Let_def
        split: option.splits sync_end.splits if_splits)

text \<open>
  Claim C2, as amended. In every state reached from the initial state through events
  that can happen, \<^verbatim>\<open>open\<close> resolving each time with a handle it has not given
  before, the active handle is not in \<^verbatim>\<open>leftTransports\<close>. An event that takes a handle
  \<open>h\<close> out of Active is a leave, after which \<open>h\<close> is in \<^verbatim>\<open>leftTransports\<close>; or the
  disconnect notification of \<open>h\<close>; or a Re-use or a resolution of \<^verbatim>\<open>open\<close> that
  makes another handle active, after which \<open>h\<close> is not in \<^verbatim>\<open>leftTransports\<close> and
  \<^verbatim>\<open>close()\<close> has not been called.
\<close>

theorem C2_session_handles:
  assumes "valid_trace (init t0 mode) tes"
  shows "(\<forall>h. transport (run (init t0 mode) tes) = Some h
            \<longrightarrow> h \<notin> set (leftTransports (run (init t0 mode) tes)))
   \<and> (\<forall>now e h.
         enabled (run (init t0 mode) tes) e
         \<and> transport (run (init t0 mode) tes) = Some h
         \<and> transport (step (run (init t0 mode) tes) (now, e)) \<noteq> Some h
         \<longrightarrow> (e = ClickLeave \<and> h \<in> set (leftTransports (step (run (init t0 mode) tes) (now, e))))
           \<or> (e = Disconnect h
               \<and> h \<notin> set (leftTransports (step (run (init t0 mode) tes) (now, e))))
           \<or> (\<exists>t. t \<noteq> h \<and> (e = ClickReuse t \<or> e = OpenResolved t)
                  \<and> transport (step (run (init t0 mode) tes) (now, e)) = Some t
                  \<and> h \<notin> set (leftTransports (step (run (init t0 mode) tes) (now, e)))
                  \<and> closeCalls (step (run (init t0 mode) tes) (now, e))
                      = closeCalls (run (init t0 mode) tes)))"
proof -
  have inv: "session_inv (run (init t0 mode) tes)"
    using session_inv_run [OF session_inv_init assms] .
  then have a: "\<forall>h. transport (run (init t0 mode) tes) = Some h
            \<longrightarrow> h \<notin> set (leftTransports (run (init t0 mode) tes))"
    by (auto simp add: session_inv_def)
  from a leaving_active [OF inv] show ?thesis by blast
qed

theorem C2_witness:
  "valid_trace (init 0 ''webusb'') drop_active_trace
   \<and> transport (run (init 0 ''webusb'') drop_active_trace) = Some 2
   \<and> 2 \<notin> set (leftTransports (run (init 0 ''webusb'') drop_active_trace))
   \<and> enabled (run (init 0 ''webusb'') drop_active_trace) ClickLeave
   \<and> transport (step (run (init 0 ''webusb'') drop_active_trace) (6, ClickLeave)) \<noteq> Some 2
   \<and> 2 \<in> set (leftTransports (step (run (init 0 ''webusb'') drop_active_trace) (6, ClickLeave)))"
proof -
  have v: "valid_trace (init 0 ''webusb'') drop_active_trace"
    by (simp add: drop_active_trace_def eval_defs)
  have t: "transport (run (init 0 ''webusb'') drop_active_trace) = Some 2"
    by (simp add: drop_active_trace_def eval_defs)
  have en: "enabled (run (init 0 ''webusb'') drop_active_trace) ClickLeave"
    using t by simp
  have n: "transport (step (run (init 0 ''webusb'') drop_active_trace) (6, ClickLeave)) \<noteq> Some 2"
    by (simp add: drop_active_trace_def eval_defs)
  from C2_session_handles [OF v] t
  have a: "2 \<notin> set (leftTransports (run (init 0 ''webusb'') drop_active_trace))"
    by blast
  from C2_session_handles [OF v] en t n
  have "2 \<in> set (leftTransports (step (run (init 0 ''webusb'') drop_active_trace) (6, ClickLeave)))"
    by blast
  with v t a en n show ?thesis by blast
qed

text \<open>
  Claim C2 as stated fails: with handle 2 active and handle 1 left in the background,
  Re-use of handle 1 makes 1 active, and 2 is then neither active nor in
  \<^verbatim>\<open>leftTransports\<close>, nor has \<^verbatim>\<open>close()\<close> been called on it.
\<close>

theorem C2_counterexample:
  "valid_trace (init 0 ''webusb'') drop_active_trace
   \<and> transport (run (init 0 ''webusb'') drop_active_trace) = Some 2
   \<and> enabled (run (init 0 ''webusb'') drop_active_trace) (ClickReuse 1)
   \<and> transport (step (run (init 0 ''webusb'') drop_active_trace) (6, ClickReuse 1)) = Some 1
   \<and> 2 \<notin> set (leftTransports (step (run (init 0 ''webusb'') drop_active_trace) (6, ClickReuse 1)))
   \<and> 2 \<notin> set (closeCalls (step (run (init 0 ''webusb'') drop_active_trace) (6, ClickReuse 1)))
   \<and> 2 \<in> set (listeners (step (run (init 0 ''webusb'') drop_active_trace) (6, ClickReuse 1)))"
  by (simp add: drop_active_trace_def eval_defs)

section \<open>Leave and Re-use\<close>

lemma leave_then_reuse_current_closure:
  assumes "transport s = Some h" and "leftTransports s = []"
    and "onLeaveTransport_closure s = \<lparr>cl_transport = Some h, cl_leftTransports = []\<rparr>"
  shows "transport (step s (now, ClickLeave)) = None
     \<and> leftTransports (step s (now, ClickLeave)) = [h]
     \<and> transport (step (step s (now, ClickLeave)) (now', ClickReuse h)) = Some h
     \<and> leftTransports (step (step s (now, ClickLeave)) (now', ClickReuse h)) = []"
  using assms by (simp add: step_def render_def handler_defs Let_def)

text \<open>
  Claim C8 at a state where it fails. Handle 1 is opened and left, handle 2 is opened,
  then handle 1 disconnects: handle 2 is active and \<^verbatim>\<open>leftTransports\<close> is empty.
  The closure of \<^verbatim>\<open>onLeaveTransport\<close> dates from the render in which handle 2 became
  active and still sees handle 1 in \<^verbatim>\<open>leftTransports\<close>. Leaving gives
  \<^verbatim>\<open>leftTransports\<close> = [1, 2], and Re-use of handle 2 then gives [1]: neither is
  what the claim says, \<open>[2]\<close> and \<open>[]\<close>.
\<close>

theorem C8_stale_leave:
  "valid_trace (init 0 ''webusb'') stale_leave_trace
   \<and> transport (run (init 0 ''webusb'') stale_leave_trace) = Some 2
   \<and> leftTransports (run (init 0 ''webusb'') stale_leave_trace) = []
   \<and> onLeaveTransport_closure (run (init 0 ''webusb'') stale_leave_trace)
       = \<lparr>cl_transport = Some 2, cl_leftTransports = [1]\<rparr>
   \<and> enabled (run (init 0 ''webusb'') stale_leave_trace) ClickLeave
   \<and> transport (step (run (init 0 ''webusb'') stale_leave_trace) (7, ClickLeave)) = None
   \<and> leftTransports (step (run (init 0 ''webusb'') stale_leave_trace) (7, ClickLeave)) = [1, 2]
   \<and> enabled (step (run (init 0 ''webusb'') stale_leave_trace) (7, ClickLeave)) (ClickReuse 2)
   \<and> transport (step (step (run (init 0 ''webusb'') stale_leave_trace) (7, ClickLeave))
                   (8, ClickReuse 2)) = Some 2
   \<and> leftTransports (step (step (run (init 0 ''webusb'') stale_leave_trace) (7, ClickLeave))
                        (8, ClickReuse 2)) = [1]"
  by (simp add: stale_leave_trace_def eval_defs)

section \<open>Executions\<close>

lemma exec_inv_init: "exec_inv (init t0 mode)"
  by (simp add: exec_inv_def init_def)

lemma exec_inv_step:
  assumes "exec_inv s" and "enabled s e"
  shows "exec_inv (step s (now, e))"
  using assms
  by (cases e)
     (auto simp add: exec_inv_def step_def render_def handler_defs frames Let_def find_exec_def
        split: list.splits option.splits sync_end.splits if_splits)

lemma exec_inv_run:
  assumes "exec_inv s" and "valid_trace s tes"
  shows "exec_inv (run s tes)"
  using assms
proof (induction tes arbitrary: s)
  case Nil
  then show ?case by (simp add: run_def)
next
  case (Cons te tes)
  from Cons.prems have en: "enabled s (snd te)" and vt: "valid_trace (step s te) tes"
    by simp_all
  have "exec_inv (step s te)"
    using exec_inv_step [OF Cons.prems(1) en, of "fst te"] by simp
  from Cons.IH [OF this vt] show ?case by (simp add: run_def)
qed

lemma length_logs_foldl_addLog:
  "length (logs (foldl (\<lambda>a x. addLog a now (f x)) s xs)) = length (logs s) + length xs"
  by (induction xs arbitrary: s) (simp_all add: logs_addLog)

lemma onSendCommand_starts:
  assumes "selectedCommand s = Some cmd" and "transport s = Some t"
  shows "length (logs (onSendCommand s now rs ending))
       = length (logs s) + 1 + length (commandValue s) + length rs
         + (case ending of StillRunning \<Rightarrow> 0 | Completed now' \<Rightarrow> 1 | Failed e \<Rightarrow> 1)
     \<and> commandSub (onSendCommand s now rs ending) = Some (next_token s)
     \<and> live (onSendCommand s now rs ending)
       = (case ending of
            StillRunning \<Rightarrow> live s @ [\<lparr>ex_token = next_token s, ex_start = now, ex_cmd = cmd\<rparr>]
          | Completed now' \<Rightarrow> filter (\<lambda>y. ex_token y \<noteq> next_token s) (live s)
          | Failed e \<Rightarrow> filter (\<lambda>y. ex_token y \<noteq> next_token s) (live s))"
  using assms
  by (simp add: onSendCommand_def exec_next_def exec_complete_def exec_error_def addLogError_def
      Let_def length_logs_foldl_addLog logs_addLog frames split: sync_end.splits)

lemma onSendCommand_noop:
  assumes "selectedCommand s = None \<or> transport s = None"
  shows "onSendCommand s now rs ending = s"
  using assms by (auto simp add: onSendCommand_def split: option.splits sync_end.splits)

lemma filter_fresh_token:
  assumes "exec_inv s"
  shows "filter (\<lambda>y. ex_token y \<noteq> next_token s) (live s) = live s"
  using assms by (auto simp add: exec_inv_def split: list.splits)

text \<open>
  Claim C1, as amended. \<^verbatim>\<open>onSendCommand\<close> does not look at \<^verbatim>\<open>commandSub\<close>: it does
  nothing when no command is selected or no transport is active, and otherwise it
  appends one entry, one more per form value and one per result or end the execution
  brings while \<^verbatim>\<open>subscribe\<close> runs, and stores the new subscription in \<^verbatim>\<open>commandSub\<close>,
  live unless the execution has ended already. The render offers Send only while
  \<^verbatim>\<open>commandSub\<close> is null. So in every state reached from the initial state through
  events that can happen, at most one subscription is live, a live one is the one held
  in \<^verbatim>\<open>commandSub\<close>, and while \<^verbatim>\<open>commandSub\<close> holds a subscription, live or ended, Send
  cannot be clicked.
\<close>

theorem C1_send_only_when_idle:
  assumes "valid_trace (init t0 mode) tes"
  shows "length (live (run (init t0 mode) tes)) \<le> 1
   \<and> (\<forall>x \<in> set (live (run (init t0 mode) tes)).
         commandSub (run (init t0 mode) tes) = Some (ex_token x))
   \<and> (commandSub (run (init t0 mode) tes) \<noteq> None
        \<longrightarrow> \<not> enabled (run (init t0 mode) tes) (ClickSend rs ending))
   \<and> (selectedCommand (run (init t0 mode) tes) = None \<or> transport (run (init t0 mode) tes) = None
        \<longrightarrow> onSendCommand (run (init t0 mode) tes) now rs ending = run (init t0 mode) tes)
   \<and> (\<forall>cmd t. selectedCommand (run (init t0 mode) tes) = Some cmd
                \<and> transport (run (init t0 mode) tes) = Some t
        \<longrightarrow> length (logs (onSendCommand (run (init t0 mode) tes) now rs ending))
              = length (logs (run (init t0 mode) tes)) + 1
                + length (commandValue (run (init t0 mode) tes)) + length rs
                + (case ending of StillRunning \<Rightarrow> 0 | Completed now' \<Rightarrow> 1 | Failed e \<Rightarrow> 1)
            \<and> commandSub (onSendCommand (run (init t0 mode) tes) now rs ending)
              = Some (next_token (run (init t0 mode) tes))
            \<and> live (onSendCommand (run (init t0 mode) tes) now rs ending)
              = (case ending of
                   StillRunning \<Rightarrow>
                     live (run (init t0 mode) tes)
                     @ [\<lparr>ex_token = next_token (run (init t0 mode) tes), ex_start = now,
                         ex_cmd = cmd\<rparr>]
                 | Completed now' \<Rightarrow> live (run (init t0 mode) tes)
                 | Failed e \<Rightarrow> live (run (init t0 mode) tes)))"
proof -
  let ?s = "run (init t0 mode) tes"
  have inv: "exec_inv ?s"
    using exec_inv_run [OF exec_inv_init assms] .
  then have a: "length (live ?s) \<le> 1"
    and b: "\<forall>x \<in> set (live ?s). commandSub ?s = Some (ex_token x)"
    by (auto simp add: exec_inv_def split: list.splits)
  have c: "commandSub ?s \<noteq> None \<longrightarrow> \<not> enabled ?s (ClickSend rs ending)"
    by simp
  have d: "selectedCommand ?s = None \<or> transport ?s = None
        \<longrightarrow> onSendCommand ?s now rs ending = ?s"
    using onSendCommand_noop [of ?s now rs ending] by blast
  have e: "\<forall>cmd t. selectedCommand ?s = Some cmd \<and> transport ?s = Some t
        \<longrightarrow> length (logs (onSendCommand ?s now rs ending))
              = length (logs ?s) + 1 + length (commandValue ?s) + length rs
                + (case ending of StillRunning \<Rightarrow> 0 | Completed now' \<Rightarrow> 1 | Failed e \<Rightarrow> 1)
            \<and> commandSub (onSendCommand ?s now rs ending) = Some (next_token ?s)
            \<and> live (onSendCommand ?s now rs ending)
              = (case ending of
                   StillRunning \<Rightarrow>
                     live ?s @ [\<lparr>ex_token = next_token ?s, ex_start = now, ex_cmd = cmd\<rparr>]
                 | Completed now' \<Rightarrow> live ?s
                 | Failed e \<Rightarrow> live ?s)"
  proof (intro allI impI)
    fix cmd t
    assume h: "selectedCommand ?s = Some cmd \<and> transport ?s = Some t"
    then have h1: "selectedCommand ?s = Some cmd" and h2: "transport ?s = Some t"
      by simp_all
    from onSendCommand_starts [OF h1 h2, of now rs ending] filter_fresh_token [OF inv]
    show "length (logs (onSendCommand ?s now rs ending))
              = length (logs ?s) + 1 + length (commandValue ?s) + length rs
                + (case ending of StillRunning \<Rightarrow> 0 | Completed now' \<Rightarrow> 1 | Failed e \<Rightarrow> 1)
            \<and> commandSub (onSendCommand ?s now rs ending) = Some (next_token ?s)
            \<and> live (onSendCommand ?s now rs ending)
              = (case ending of
                   StillRunning \<Rightarrow>
                     live ?s @ [\<lparr>ex_token = next_token ?s, ex_start = now, ex_cmd = cmd\<rparr>]
                 | Completed now' \<Rightarrow> live ?s
                 | Failed e \<Rightarrow> live ?s)"
      by (simp split: sync_end.splits)
  qed
  from a b c d e show ?thesis by blast
qed

theorem C1_witness:
  "valid_trace (init 0 ''webusb'') running_trace
   \<and> commandSub (run (init 0 ''webusb'') running_trace) = Some 0
   \<and> map ex_token (live (run (init 0 ''webusb'') running_trace)) = [0]
   \<and> \<not> enabled (run (init 0 ''webusb'') running_trace) (ClickSend [] StillRunning)
   \<and> valid_trace (init 0 ''webusb'') sync_failure_trace
   \<and> commandSub (run (init 0 ''webusb'') sync_failure_trace) = Some 0
   \<and> live (run (init 0 ''webusb'') sync_failure_trace) = []
   \<and> map log_type (logs (run (init 0 ''webusb'') sync_failure_trace))
       = [''announcement'', ''command'', ''command'', ''error'']
   \<and> \<not> enabled (run (init 0 ''webusb'') sync_failure_trace) (ClickSend [] StillRunning)
   \<and> valid_trace (init 0 ''webusb'') []
   \<and> selectedCommand (run (init 0 ''webusb'') []) = None
   \<and> onSendCommand (run (init 0 ''webusb'') []) 5 [] StillRunning = run (init 0 ''webusb'') []"
proof -
  have v: "valid_trace (init 0 ''webusb'') running_trace"
    by (simp add: running_trace_def eval_defs)
  have c: "commandSub (run (init 0 ''webusb'') running_trace) = Some 0"
    by (simp add: running_trace_def eval_defs)
  have l: "map ex_token (live (run (init 0 ''webusb'') running_trace)) = [0]"
    by (simp add: running_trace_def eval_defs)
  have vf: "valid_trace (init 0 ''webusb'') sync_failure_trace"
    by (simp add: sync_failure_trace_def eval_defs)
  have cf: "commandSub (run (init 0 ''webusb'') sync_failure_trace) = Some 0"
    by (simp add: sync_failure_trace_def eval_defs)
  have lf: "live (run (init 0 ''webusb'') sync_failure_trace) = []"
    by (simp add: sync_failure_trace_def eval_defs)
  have tf: "map log_type (logs (run (init 0 ''webusb'') sync_failure_trace))
       = [''announcement'', ''command'', ''command'', ''error'']"
    by (simp add: sync_failure_trace_def eval_defs)
  have v0: "valid_trace (init 0 ''webusb'') []" by simp
  have n: "selectedCommand (run (init 0 ''webusb'') []) = None"
    by (simp add: run_def init_def)
  from C1_send_only_when_idle [OF v, of "[]" StillRunning 5] c
  have r: "\<not> enabled (run (init 0 ''webusb'') running_trace) (ClickSend [] StillRunning)"
    by simp
  from C1_send_only_when_idle [OF vf, of "[]" StillRunning 5] cf
  have rf: "\<not> enabled (run (init 0 ''webusb'') sync_failure_trace) (ClickSend [] StillRunning)"
    by simp
  from C1_send_only_when_idle [OF v0, of "[]" StillRunning 5] n
  have "onSendCommand (run (init 0 ''webusb'') []) 5 [] StillRunning = run (init 0 ''webusb'') []"
    by blast
  with v c l r vf cf lf tf rf v0 n show ?thesis by simp
qed

text \<open>
  Claim C1 as stated fails: called in a state where an execution is running,
  \<^verbatim>\<open>onSendCommand\<close> appends two entries and starts a second execution.
\<close>

theorem C1_counterexample:
  "valid_trace (init 0 ''webusb'') running_trace
   \<and> commandSub (run (init 0 ''webusb'') running_trace) = Some 0
   \<and> map ex_token (live (run (init 0 ''webusb'') running_trace)) = [0]
   \<and> length (logs (run (init 0 ''webusb'') running_trace)) = 3
   \<and> length (logs (onSendCommand (run (init 0 ''webusb'') running_trace) 5 [] StillRunning)) = 5
   \<and> map ex_token (live (onSendCommand (run (init 0 ''webusb'') running_trace) 5 [] StillRunning))
       = [0, 1]
   \<and> commandSub (onSendCommand (run (init 0 ''webusb'') running_trace) 5 [] StillRunning) = Some 1"
  by (simp add: running_trace_def eval_defs)

section \<open>Elapsed time of an execution\<close>

lemma bitlen_le: "n < 2 ^ k \<Longrightarrow> bitlen n \<le> k"
proof (induction k arbitrary: n)
  case 0
  then show ?case by (simp add: bitlen.simps)
next
  case (Suc k)
  then have "n div 2 < 2 ^ k" by simp
  from Suc.IH [OF this] show ?case by (subst bitlen.simps) simp
qed

lemma rne_bounds:
  assumes "0 < b"
  shows "2 * (rne a b * b) \<le> 2 * a + b \<and> 2 * a \<le> 2 * (rne a b * b) + b"
proof -
  have eq: "a = (a div b) * b + a mod b" by simp
  have lt: "a mod b < b" using assms by simp
  define q where "q = a div b"
  define r where "r = a mod b"
  have a: "a = q * b + r" and rb: "r < b" using eq lt by (simp_all add: q_def r_def)
  have r1: "rne a b = q \<or> rne a b = q + 1"
    by (simp add: rne_def Let_def q_def)
  have c1: "rne a b = q \<Longrightarrow> 2 * r \<le> b"
    by (simp add: rne_def Let_def q_def r_def split: if_splits)
  have c2: "rne a b = q + 1 \<Longrightarrow> b \<le> 2 * r"
    by (simp add: rne_def Let_def q_def r_def split: if_splits)
  from r1 show ?thesis
  proof
    assume h: "rne a b = q"
    with c1 a show ?thesis by simp
  next
    assume h: "rne a b = q + 1"
    with c2 a rb show ?thesis by (simp add: algebra_simps)
  qed
qed


lemma div_round_bounds:
  assumes "0 < (E::nat)"
  shows "2 * E * ((20 * m + E) div (2 * E)) \<le> 20 * m + E
     \<and> 20 * m + E < 2 * E * ((20 * m + E) div (2 * E)) + 2 * E"
proof -
  have pos: "0 < 2 * E" using assms by simp
  have "(20 * m + E) = 2 * E * ((20 * m + E) div (2 * E)) + (20 * m + E) mod (2 * E)"
    by simp
  moreover have "(20 * m + E) mod (2 * E) < 2 * E"
    using pos by (rule mod_less_divisor)
  ultimately show ?thesis by linarith
qed

lemma nearest_tenth:
  fixes a e :: nat
  assumes e: "9 \<le> e"
  defines "E \<equiv> (2::nat) ^ e"
  defines "m \<equiv> rne (a * E) 1000"
  defines "n \<equiv> (20 * m + E) div (2 * E)"
  shows "100 * n \<le> a + 50 \<and> a \<le> 100 * n + 50"
proof -
  have "(2::nat) ^ 9 \<le> 2 ^ e" using e by (intro power_increasing) simp_all
  then have E: "500 < E" by (simp add: E_def)
  then have Epos: "0 < E" by simp
  from rne_bounds [of 1000 "a * E"]
  have m1: "1000 * m \<le> a * E + 500" and m2: "a * E \<le> 1000 * m + 500"
    by (simp_all add: m_def)
  from div_round_bounds [OF Epos, of m]
  have n1: "2 * (E * n) \<le> 20 * m + E" and n2: "20 * m + E < 2 * (E * n) + 2 * E"
    by (simp_all add: n_def mult.assoc)
  have "E * (100 * n) < E * (a + 51)"
  proof -
    have "100 * (E * n) \<le> 1000 * m + 50 * E" using n1 by linarith
    also have "\<dots> \<le> a * E + 500 + 50 * E" using m1 by linarith
    also have "\<dots> < a * E + 51 * E" using E by linarith
    finally show ?thesis by (simp add: algebra_simps)
  qed
  then have u: "100 * n < a + 51" by simp
  have "E * a < E * (100 * n + 51)"
  proof -
    have "a * E \<le> 1000 * m + 500" by (rule m2)
    also have "\<dots> < 100 * (E * n) + 50 * E + 500" using n2 by linarith
    also have "\<dots> < 100 * (E * n) + 51 * E" using E by linarith
    finally show ?thesis by (simp add: algebra_simps)
  qed
  then have l: "a < 100 * n + 51" by simp
  from u l show ?thesis by linarith
qed

lemma show_nat_digit: "n < 10 \<Longrightarrow> show_nat n = [digit_char n]"
  by (simp add: show_nat.simps)

lemma format_delta_seconds:
  assumes "1000 \<le> d" and "d < 2 ^ 53"
  shows "\<exists>n. format_delta d = show_nat (n div 10) @ ''.'' @ [digit_char (n mod 10)] @ ''s''
            \<and> \<bar>100 * int n - d\<bar> \<le> 50"
proof -
  define a where "a = nat d"
  define e where "e = 53 - bitlen (a div 1000)"
  define n where "n = (20 * rne (a * 2 ^ e) 1000 + 2 ^ e) div (2 * 2 ^ e)"
  have d: "d = int a" using assms by (simp add: a_def)
  have "a < 2 ^ 53" using assms by (simp add: a_def)
  then have "a div 1000 < 2 ^ 44" by simp
  then have "bitlen (a div 1000) \<le> 44" by (rule bitlen_le)
  then have e9: "9 \<le> e" by (simp add: e_def)
  from nearest_tenth [OF e9, of a]
  have b: "100 * n \<le> a + 50 \<and> a \<le> 100 * n + 50" by (simp add: n_def)
  have f: "format_delta d = show_nat (n div 10) @ ''.'' @ show_nat (n mod 10) @ ''s''"
    using assms
    by (simp add: format_delta_def toFixed1_def js_div_def Let_def n_def e_def a_def)
  have "show_nat (n mod 10) = [digit_char (n mod 10)]"
    by (rule show_nat_digit) simp
  with f have "format_delta d = show_nat (n div 10) @ ''.'' @ [digit_char (n mod 10)] @ ''s''"
    by simp
  moreover have "\<bar>100 * int n - d\<bar> \<le> 50" using b d by linarith
  ultimately show ?thesis by blast
qed

text \<open>
  Claim C6. When an execution completes at clock reading \<open>now\<close>, exactly one entry is
  appended. It has kind command and the text "<command id> completed in <delta>.",
  where \<open>d\<close> is \<open>now\<close> minus the start time. For \<open>d\<close> below 1000, delta is \<open>d\<close> in decimal
  followed by "ms". For \<open>d\<close> from 1000 (and below \<open>2 ^ 53\<close>, as every difference of two
  clock readings is), delta is a decimal number with exactly one digit after the point,
  followed by "s", and that number is within 0.05 of \<open>d / 1000\<close>. 1500 gives "1.5s".
\<close>

theorem C6_completion_entry:
  "logs (exec_complete s now x)
     = logs s @ [\<lparr>log_id = id_counter s + 1, log_date = now, log_type = ''command'',
                   log_text = JStr (cmd_id (ex_cmd x) @ '' completed in ''
                                    @ format_delta (now - ex_start x) @ ''.''),
                   log_object = None\<rparr>]
   \<and> (find_exec (live s) tok = Some x
        \<longrightarrow> handle_event s now (ExecComplete tok) = exec_complete s now x)
   \<and> (d < 1000 \<longrightarrow> format_delta d = show_int d @ ''ms'')
   \<and> (1000 \<le> d \<and> d < 2 ^ 53 \<longrightarrow>
        (\<exists>n. format_delta d = show_nat (n div 10) @ ''.'' @ [digit_char (n mod 10)] @ ''s''
             \<and> \<bar>100 * int n - d\<bar> \<le> 50))
   \<and> format_delta 1500 = ''1.5s''"
proof -
  have a: "logs (exec_complete s now x)
     = logs s @ [\<lparr>log_id = id_counter s + 1, log_date = now, log_type = ''command'',
                   log_text = JStr (cmd_id (ex_cmd x) @ '' completed in ''
                                    @ format_delta (now - ex_start x) @ ''.''),
                   log_object = None\<rparr>]"
    by (simp add: exec_complete_def logs_addLog)
  have h: "find_exec (live s) tok = Some x
        \<longrightarrow> handle_event s now (ExecComplete tok) = exec_complete s now x"
    by simp
  have b: "d < 1000 \<longrightarrow> format_delta d = show_int d @ ''ms''"
    by (simp add: format_delta_def)
  have c: "format_delta 1500 = ''1.5s''"
    by (simp add: format_delta_def js_div_def toFixed1_def rne_def bitlen.simps
        show_nat.simps digit_char_def Let_def)
  from a h b c format_delta_seconds [of d] show ?thesis by blast
qed

theorem C6_witness:
  "valid_trace (init 0 ''webusb'') completion_trace
   \<and> find_exec (live (run (init 0 ''webusb'') completion_trace)) 0
       = Some \<lparr>ex_token = 0, ex_start = 4,
               ex_cmd = \<lparr>cmd_id = ''getAddress'', cmd_default = [JStr ''44/0/0/0/0'']\<rparr>\<rparr>
   \<and> map log_text (logs (handle_event (run (init 0 ''webusb'') completion_trace) 1504
                           (ExecComplete 0)))
       = [JStr announcement, JStr (''=>'' @ nbsp @ ''getAddress''), JStr (''+'' @ nbsp), JStr ''<='', JStr ''<='',
          JStr ''<='', JStr ''getAddress completed in 1.5s.'']
   \<and> (999::int) < 1000 \<and> format_delta 999 = ''999ms''
   \<and> (1000::int) \<le> 1150 \<and> (1150::int) < 2 ^ 53
   \<and> (\<exists>n. format_delta 1150 = show_nat (n div 10) @ ''.'' @ [digit_char (n mod 10)] @ ''s''
          \<and> \<bar>100 * int n - 1150\<bar> \<le> 50)
   \<and> format_delta 1150 = ''1.1s''"
proof -
  let ?s = "run (init 0 ''webusb'') completion_trace"
  let ?x = "\<lparr>ex_token = 0, ex_start = 4,
             ex_cmd = \<lparr>cmd_id = ''getAddress'', cmd_default = [JStr ''44/0/0/0/0'']\<rparr>\<rparr>"
  have v: "valid_trace (init 0 ''webusb'') completion_trace"
    by (simp add: completion_trace_def running_trace_def eval_defs find_exec_def)
  have f: "find_exec (live ?s) 0 = Some ?x"
    by (simp add: completion_trace_def running_trace_def eval_defs find_exec_def)
  have l: "map log_text (logs ?s)
       = [JStr announcement, JStr (''=>'' @ nbsp @ ''getAddress''), JStr (''+'' @ nbsp), JStr ''<='', JStr ''<='',
          JStr ''<='']"
    by (simp add: completion_trace_def running_trace_def eval_defs find_exec_def)
  have n: "format_delta 999 = ''999ms''"
    using C6_completion_entry [of ?s 1504 ?x 0 999]
    by (simp add: show_int_def show_nat.simps digit_char_def)
  have e: "format_delta 1150 = ''1.1s''"
    by (simp add: format_delta_def js_div_def toFixed1_def rne_def bitlen.simps
        show_nat.simps digit_char_def Let_def)
  from C6_completion_entry [of ?s 1504 ?x 0 1150]
  have t: "\<exists>n. format_delta 1150 = show_nat (n div 10) @ ''.'' @ [digit_char (n mod 10)] @ ''s''
          \<and> \<bar>100 * int n - 1150\<bar> \<le> 50"
    by simp
  from C6_completion_entry [of ?s 1504 ?x 0 1500] f
  have "logs (handle_event ?s 1504 (ExecComplete 0))
      = logs ?s @ [\<lparr>log_id = id_counter ?s + 1, log_date = 1504, log_type = ''command'',
                     log_text = JStr (''getAddress'' @ '' completed in ''
                                      @ ''1.5s'' @ ''.''),
                     log_object = None\<rparr>]"
    by simp
  then have "map log_text (logs (handle_event ?s 1504 (ExecComplete 0)))
       = [JStr announcement, JStr (''=>'' @ nbsp @ ''getAddress''), JStr (''+'' @ nbsp), JStr ''<='', JStr ''<='',
          JStr ''<='', JStr ''getAddress completed in 1.5s.'']"
    using l by simp
  with v f n e t show ?thesis by simp
qed

section \<open>The counter along a trace\<close>

text \<open>
  Two failed exchanges after the first render: the first dispatch finds the component
  clean, so the reducer is called at once (2), the render evaluates \<^verbatim>\<open>++id\<close> (3) and
  runs the reducer again, which gives the entry the id 4; the second dispatch is
  followed by a render (5) with the reducer in it (6). A rejected \<^verbatim>\<open>open\<close>: the click
  renders once (2), the callback renders after \<^verbatim>\<open>setTransportOpening(false)\<close> (3) and
  again for the dispatch (4), whose entry gets the id 5.
\<close>

lemma ids_of_two_failed_exchanges:
  "map log_id (logs (run (init t0 mode) [(t1, ExchangeFailed e1), (t2, ExchangeFailed e2)]))
     = [1, 4, 6]"
  by (simp add: eval_defs)

lemma ids_of_rejected_open:
  "map log_id (logs (run (init t0 mode) [(t1, ClickOpen), (t2, OpenRejected e)])) = [1, 5]"
  by (simp add: eval_defs)

end
